theory Spec2Isabelle
  imports Main "HOL-Library.Word" "HOL-Library.Multiset"
begin

section \<open>Go channels\<close>

text \<open>
  A buffered channel \<^verbatim>\<open>make(chan T, n)\<close> is a FIFO queue of capacity \<open>n\<close>.
  The Go runtime panics with "makechan: size out of range" when \<open>n\<close> is negative or when
  the buffer would exceed the allocation limit of the platform; the largest admissible
  capacity is the parameter \<open>lim\<close>. A send on a full channel and a receive on an empty
  one block: the operation returns \<open>None\<close> and the channel is left as it is.
\<close>

datatype panic = MakechanSizeOutOfRange

record 'm chan =
  cap :: nat
  buf :: "'m list"

definition make_chan :: "nat \<Rightarrow> int \<Rightarrow> panic + 'm chan" where
  "make_chan lim n =
     (if n < 0 \<or> int lim < n then Inl MakechanSizeOutOfRange
      else Inr \<lparr>cap = nat n, buf = []\<rparr>)"

definition chan_send :: "'m chan \<Rightarrow> 'm \<Rightarrow> 'm chan option" where
  "chan_send c m = (if length (buf c) < cap c then Some (c\<lparr>buf := buf c @ [m]\<rparr>) else None)"

definition chan_recv :: "'m chan \<Rightarrow> ('m \<times> 'm chan) option" where
  "chan_recv c = (case buf c of [] \<Rightarrow> None | m # ms \<Rightarrow> Some (m, c\<lparr>buf := ms\<rparr>))"

datatype 'm chan_op = Send 'm | Recv

fun chan_step :: "'m chan \<Rightarrow> 'm chan_op \<Rightarrow> 'm chan" where
  "chan_step c (Send m) = (case chan_send c m of None \<Rightarrow> c | Some c' \<Rightarrow> c')"
| "chan_step c Recv = (case chan_recv c of None \<Rightarrow> c | Some (m, c') \<Rightarrow> c')"

text \<open>
  Channels are reference values: the store holds the channels allocated so far, and a
  channel reference is the index of its cell. A nil or dangling reference never proceeds,
  so an operation on it leaves the store unchanged.
\<close>

type_synonym chan_ref = nat

type_synonym 'm store = "'m chan list"

definition alloc_chan :: "nat \<Rightarrow> int \<Rightarrow> 'm store \<Rightarrow> panic + (chan_ref \<times> 'm store)" where
  "alloc_chan lim n h =
     (case make_chan lim n of
        Inl e \<Rightarrow> Inl e
      | Inr c \<Rightarrow> Inr (length h, h @ [c]))"

definition store_step :: "'m store \<Rightarrow> chan_ref \<times> 'm chan_op \<Rightarrow> 'm store" where
  "store_step h x =
     (case x of (r, opn) \<Rightarrow> if r < length h then h[r := chan_step (h ! r) opn] else h)"

definition store_run :: "'m store \<Rightarrow> (chan_ref \<times> 'm chan_op) list \<Rightarrow> 'm store" where
  "store_run h ops = foldl store_step h ops"

section \<open>Lifecycle calls and their traces\<close>

text \<open>
  Modelled from the spec: the bodies of Start() and Stop() of the managed components
  (Processor, Sender, Auditor, DestinationsContext, the pipeline provider and the source
  collectors) are not part of the sources at hand. Every component is a Restartable, "a
  capability exposing Start() and Stop()"; a synchronous call of such a method is recorded
  as its invocation followed by its return. Every such call is taken to return: a trace is
  the trace of a complete run.
\<close>

datatype meth = Start | Stop

datatype 'c event = Invoke meth 'c | Return meth 'c

definition call :: "meth \<Rightarrow> 'c \<Rightarrow> 'c event list" where
  "call m c = [Invoke m c, Return m c]"

text \<open>\<open>precedes x y t\<close>: no \<open>x\<close> occurs in \<open>t\<close> at or after the first \<open>y\<close>, that is,
  every occurrence of \<open>x\<close> lies before every occurrence of \<open>y\<close>.\<close>

definition precedes :: "'a \<Rightarrow> 'a \<Rightarrow> 'a list \<Rightarrow> bool" where
  "precedes x y t = (x \<notin> set (dropWhile (\<lambda>e. e \<noteq> y) t))"

section \<open>Package pipeline\<close>

text \<open>
  Modelled from the spec: the endpoint descriptor is declared in package client, outside
  the sources at hand: "one main endpoint (address, credential, encoding-format flag) plus
  zero or more additional endpoints, same shape". The source reads the fields \<open>Main\<close>,
  \<open>Additionals\<close> and \<open>UseProto\<close>.
\<close>

record Endpoint =
  Host :: string
  APIKey :: string
  UseProto :: bool

record Endpoints =
  Main :: Endpoint
  Additionals :: "Endpoint list"

text \<open>
  Modelled from the spec: client.NewDestination and client.NewDestinations are outside the
  sources at hand. A Destination "represents one configured network endpoint" and "does
  not own the shared DestinationsContext, which it merely references"; Destinations is
  "exactly one main Destination (required) + an ordered sequence of additional
  Destinations". The context is a pointer, a value of the type \<open>'x\<close>.
\<close>

record 'x Destination =
  endpoint :: Endpoint
  destinationsContext :: 'x

definition NewDestination :: "Endpoint \<Rightarrow> 'x \<Rightarrow> 'x Destination" where
  "NewDestination e ctx = \<lparr>endpoint = e, destinationsContext = ctx\<rparr>"

record 'x Destinations =
  Dest_Main :: "'x Destination"
  Dest_Additionals :: "'x Destination list"

definition NewDestinations :: "'x Destination \<Rightarrow> 'x Destination list \<Rightarrow> 'x Destinations" where
  "NewDestinations m as = \<lparr>Dest_Main = m, Dest_Additionals = as\<rparr>"

text \<open>
  Modelled from the spec: processor.NewEncoder, processor.New and sender.NewSender are
  outside the sources at hand. The encoding is "a protocol-buffer vs. plain encoding
  flag"; the Processor "reads from [the entry queue], transforms/encodes each Message and
  pushes to an internal queue"; the Sender "reads from that queue, submits to
  Destinations, and on main-path success forwards the Message to the pipeline's output".
\<close>

datatype Encoder = ProtoEncoder | RawEncoder

definition NewEncoder :: "bool \<Rightarrow> Encoder" where
  "NewEncoder useProto = (if useProto then ProtoEncoder else RawEncoder)"

record Processor =
  proc_inputChan :: chan_ref
  proc_outputChan :: chan_ref
  encoder :: Encoder

definition NewProcessor :: "chan_ref \<Rightarrow> chan_ref \<Rightarrow> Encoder \<Rightarrow> Processor" where
  "NewProcessor inp out enc = \<lparr>proc_inputChan = inp, proc_outputChan = out, encoder = enc\<rparr>"

record 'x Sender =
  send_inputChan :: chan_ref
  send_outputChan :: chan_ref
  destinations :: "'x Destinations"

definition NewSender :: "chan_ref \<Rightarrow> chan_ref \<Rightarrow> 'x Destinations \<Rightarrow> 'x Sender" where
  "NewSender inp out ds = \<lparr>send_inputChan = inp, send_outputChan = out, destinations = ds\<rparr>"

text \<open>The struct \<^verbatim>\<open>Pipeline\<close> of pipeline.go.\<close>

record 'x Pipeline =
  InputChan :: chan_ref
  processor :: Processor
  sender :: "'x Sender"

text \<open>
  \<^verbatim>\<open>NewPipeline(outputChan, bufferSize, endpoints, destinationsContext)\<close>. The loop over
  \<open>endpoints.Additionals\<close> appends one Destination per endpoint to a slice that starts
  nil. The two \<^verbatim>\<open>make\<close> calls allocate in the store, the sender's channel first; either
  may panic, and then nothing is returned.
\<close>

definition NewPipeline ::
  "nat \<Rightarrow> chan_ref \<Rightarrow> int \<Rightarrow> Endpoints \<Rightarrow> 'x \<Rightarrow> 'm store \<Rightarrow> panic + ('x Pipeline \<times> 'm store)" where
  "NewPipeline lim outputChan bufferSize endpoints ctx h =
     (let main = NewDestination (Main endpoints) ctx;
          additionals = foldl (\<lambda>acc e. acc @ [NewDestination e ctx]) [] (Additionals endpoints);
          dests = NewDestinations main additionals
      in case alloc_chan lim bufferSize h of
           Inl e \<Rightarrow> Inl e
         | Inr (senderChan, h1) \<Rightarrow>
             (let sender = NewSender senderChan outputChan dests
              in case alloc_chan lim bufferSize h1 of
                   Inl e \<Rightarrow> Inl e
                 | Inr (inputChan, h2) \<Rightarrow>
                     (let encoder = NewEncoder (UseProto (Main endpoints));
                          processor = NewProcessor inputChan senderChan encoder
                      in Inr (\<lparr>InputChan = inputChan, processor = processor, sender = sender\<rparr>,
                              h2))))"

text \<open>The two stages of a pipeline, as the receivers of lifecycle calls.\<close>

datatype 'x stage = ProcessorStage Processor | SenderStage "'x Sender"

text \<open>\<^verbatim>\<open>Pipeline.Start\<close>: \<^verbatim>\<open>p.sender.Start(); p.processor.Start()\<close>.\<close>

definition Pipeline_Start :: "'x Pipeline \<Rightarrow> 'x stage event list" where
  "Pipeline_Start p = call Start (SenderStage (sender p)) @ call Start (ProcessorStage (processor p))"

text \<open>\<^verbatim>\<open>Pipeline.Stop\<close>: \<^verbatim>\<open>p.processor.Stop(); p.sender.Stop()\<close>.\<close>

definition Pipeline_Stop :: "'x Pipeline \<Rightarrow> 'x stage event list" where
  "Pipeline_Stop p = call Stop (ProcessorStage (processor p)) @ call Stop (SenderStage (sender p))"

section \<open>Package restart\<close>

text \<open>
  Modelled from the spec: package restart is outside the sources at hand. "Starter: holds
  an ordered sequence of Restartables [...]. Start() invokes each member's Start() in that
  order, synchronously".
\<close>

record 'c Starter =
  components :: "'c list"

definition NewStarter :: "'c list \<Rightarrow> 'c Starter" where
  "NewStarter cs = \<lparr>components = cs\<rparr>"

definition Starter_Add :: "'c Starter \<Rightarrow> 'c \<Rightarrow> 'c Starter" where
  "Starter_Add s c = s\<lparr>components := components s @ [c]\<rparr>"

definition Starter_Start :: "'c Starter \<Rightarrow> 'c event list" where
  "Starter_Start s = concat (map (call Start) (components s))"

text \<open>
  All the ways two concurrent activities can take turns: every merge of the two event
  sequences that keeps the order of each.
\<close>

fun interleave :: "'a list \<Rightarrow> 'a list \<Rightarrow> 'a list list" where
  "interleave [] ys = [ys]"
| "interleave (x # xs) [] = [x # xs]"
| "interleave (x # xs) (y # ys) =
     map ((#) x) (interleave xs (y # ys)) @ map ((#) y) (interleave (x # xs) ys)"

text \<open>One behaviour of each member, all members running concurrently.\<close>

fun par_traces :: "'a list list list \<Rightarrow> 'a list list" where
  "par_traces [] = [[]]"
| "par_traces (T # Ts) = concat (map (\<lambda>t. concat (map (interleave t) (par_traces Ts))) T)"

text \<open>One behaviour of each member, each member after the one before has finished.\<close>

fun seq_traces :: "'a list list list \<Rightarrow> 'a list list" where
  "seq_traces [] = [[]]"
| "seq_traces (T # Ts) = concat (map (\<lambda>t. map ((@) t) (seq_traces Ts)) T)"

text \<open>
  Modelled from the spec: "ParallelStopper: holds an unordered set of peer Restartables
  [...]. Stop() invokes Stop() on all members concurrently and waits for every one to
  complete before returning. SerialStopper: holds an ordered sequence of stop-groups.
  Stop() invokes Stop() on each group in turn, waiting for full completion before advancing
  to the next group". A group is "itself Restartable-like, e.g., a ParallelStopper or a
  single component". \<open>stop_traces\<close> lists the possible behaviours of Stop(). Add is a
  method of the two stoppers; a single component has none and is left as it is.
\<close>

datatype 'c Stopper =
    Component 'c
  | ParallelStopper "'c Stopper list"
  | SerialStopper "'c Stopper list"

definition NewParallelStopper :: "'c Stopper list \<Rightarrow> 'c Stopper" where
  "NewParallelStopper ms = ParallelStopper ms"

definition NewSerialStopper :: "'c Stopper list \<Rightarrow> 'c Stopper" where
  "NewSerialStopper gs = SerialStopper gs"

fun Stopper_Add :: "'c Stopper \<Rightarrow> 'c Stopper \<Rightarrow> 'c Stopper" where
  "Stopper_Add (ParallelStopper ms) m = ParallelStopper (ms @ [m])"
| "Stopper_Add (SerialStopper gs) m = SerialStopper (gs @ [m])"
| "Stopper_Add (Component c) m = Component c"

fun stop_traces :: "'c Stopper \<Rightarrow> 'c event list list" where
  "stop_traces (Component c) = [call Stop c]"
| "stop_traces (ParallelStopper ms) = par_traces (map stop_traces ms)"
| "stop_traces (SerialStopper gs) = seq_traces (map stop_traces gs)"

section \<open>Package logs: the Agent\<close>

text \<open>
  Modelled from the spec: the configuration provider is outside the sources at hand; it
  "supplies named settings consumed at construction". The global \<^verbatim>\<open>config.LogsAgent\<close> is
  passed explicitly.
\<close>

record Config =
  ints :: "string \<Rightarrow> int"
  strings :: "string \<Rightarrow> string"

definition GetInt :: "Config \<Rightarrow> string \<Rightarrow> int" where
  "GetInt cfg key = ints cfg key"

definition GetString :: "Config \<Rightarrow> string \<Rightarrow> string" where
  "GetString cfg key = strings cfg key"

text \<open>
  \<^verbatim>\<open>time.Duration\<close> is a signed 64-bit count of nanoseconds and \<^verbatim>\<open>time.Second\<close> is
  \<open>10^9\<close> of them; the conversion of an int and the product wrap around.
\<close>

type_synonym Duration = "64 word"

definition Second :: Duration where
  "Second = 1000000000"

text \<open>
  Modelled from the spec: the health registry "exposes a registration call returning a
  handle".
\<close>

datatype Handle = Handle string

definition Register :: "string \<Rightarrow> Handle" where
  "Register name = Handle name"

text \<open>
  Modelled from the spec: auditor.New is outside the sources at hand. The Auditor "runs its
  own bounded-queue-fed processing loop", with "run path for durable auditor storage";
  \<open>chanSize\<close> is the capacity its queue is created with.
\<close>

record Auditor =
  registryPath :: string
  chanSize :: int
  aud_health :: Handle

definition NewAuditor :: "string \<Rightarrow> int \<Rightarrow> Handle \<Rightarrow> Auditor" where
  "NewAuditor runPath bufferSize h =
     \<lparr>registryPath = runPath, chanSize = bufferSize, aud_health = h\<rparr>"

text \<open>
  Modelled from the spec: client.NewDestinationsContext is outside the sources at hand;
  the context is a "process-wide shared resource", created once.
\<close>

datatype DestinationsContext = DestinationsContext

definition NewDestinationsContext :: DestinationsContext where
  "NewDestinationsContext = DestinationsContext"

text \<open>
  Modelled from the spec: pipeline.NewProvider is outside the sources at hand. The
  PipelineProvider "owns N Pipelines (N = configured pool size, fixed at construction)";
  it keeps what it needs to build them.
\<close>

record Provider =
  numberOfPipelines :: int
  prov_chanSize :: int
  prov_auditor :: Auditor
  prov_endpoints :: Endpoints
  prov_destinationsContext :: DestinationsContext

definition NewProvider ::
  "int \<Rightarrow> int \<Rightarrow> Auditor \<Rightarrow> Endpoints \<Rightarrow> DestinationsContext \<Rightarrow> Provider" where
  "NewProvider n bufferSize aud eps ctx =
     \<lparr>numberOfPipelines = n, prov_chanSize = bufferSize, prov_auditor = aud, prov_endpoints = eps,
      prov_destinationsContext = ctx\<rparr>"

text \<open>
  Modelled from the spec: the source collectors are "external collaborators [...] only
  required to implement a small lifecycle capability". Each is the record of the call that
  built it; \<open>'s\<close> is the type of the configured sources, \<open>'v\<close> that of the services.
\<close>

datatype ('s, 'v) Input =
    Scanner 's int Provider Auditor Duration
  | ContainerLauncher 's 'v Provider Auditor
  | ListenerLauncher 's int Provider
  | JournaldLauncher 's Provider Auditor
  | WindowsEventLauncher 's Provider

text \<open>The values of the interface \<^verbatim>\<open>restart.Restartable\<close> that the Agent handles.\<close>

datatype ('s, 'v) Restartable =
    RDestinationsContext DestinationsContext
  | RAuditor Auditor
  | RProvider Provider
  | RInput "('s, 'v) Input"

text \<open>The struct \<^verbatim>\<open>Agent\<close>.\<close>

record ('s, 'v) Agent =
  auditor :: Auditor
  destinationsCtx :: DestinationsContext
  pipelineProvider :: Provider
  inputs :: "('s, 'v) Restartable list"
  health :: Handle

text \<open>
  \<^verbatim>\<open>NewAgent(sources, services, endpoints)\<close>; \<open>sleep\<close> stands for the constant
  \<^verbatim>\<open>file.DefaultSleepDuration\<close>, declared outside the sources at hand.
\<close>

definition NewAgent :: "Duration \<Rightarrow> Config \<Rightarrow> 's \<Rightarrow> 'v \<Rightarrow> Endpoints \<Rightarrow> ('s, 'v) Agent" where
  "NewAgent sleep cfg sources services endpoints =
     (let health = Register ''logs-agent'';
          pipelineBufferSize = GetInt cfg ''logs_config.pipeline.buffer_size'';
          auditor = NewAuditor (GetString cfg ''logs_config.run_path'') pipelineBufferSize health;
          destinationsCtx = NewDestinationsContext;
          pipelineProvider =
            NewProvider (GetInt cfg ''logs_config.pipeline.count'') pipelineBufferSize auditor
              endpoints destinationsCtx;
          inputs =
            [RInput (Scanner sources (GetInt cfg ''logs_config.open_files_limit'')
                       pipelineProvider auditor sleep),
             RInput (ContainerLauncher sources services pipelineProvider auditor),
             RInput (ListenerLauncher sources (GetInt cfg ''logs_config.frame_size'')
                       pipelineProvider),
             RInput (JournaldLauncher sources pipelineProvider auditor),
             RInput (WindowsEventLauncher sources pipelineProvider)]
      in \<lparr>auditor = auditor, destinationsCtx = destinationsCtx,
          pipelineProvider = pipelineProvider, inputs = inputs, health = health\<rparr>)"

text \<open>
  \<^verbatim>\<open>Agent.Start\<close>: a Starter is built from the context, the auditor and the provider,
  the loop adds every input, and the Starter is started. The receiver is returned beside
  the trace of the call.
\<close>

definition Agent_Start :: "('s, 'v) Agent \<Rightarrow> ('s, 'v) Agent \<times> ('s, 'v) Restartable event list" where
  "Agent_Start a =
     (let starter = NewStarter [RDestinationsContext (destinationsCtx a), RAuditor (auditor a),
                                RProvider (pipelineProvider a)];
          starter = foldl Starter_Add starter (inputs a)
      in (a, Starter_Start starter))"

text \<open>
  The stopper that \<^verbatim>\<open>Agent.Stop\<close> builds: the loop adds every input to a new
  ParallelStopper, which becomes the first group of a new SerialStopper; the provider, the
  auditor and the destinations context follow.
\<close>

definition Agent_stopper :: "('s, 'v) Agent \<Rightarrow> ('s, 'v) Restartable Stopper" where
  "Agent_stopper a =
     (let inputs = NewParallelStopper [];
          inputs = foldl Stopper_Add inputs (map Component (Agent.inputs a))
      in NewSerialStopper
           [inputs, Component (RProvider (pipelineProvider a)), Component (RAuditor (auditor a)),
            Component (RDestinationsContext (destinationsCtx a))])"

text \<open>
  \<^verbatim>\<open>time.Duration(config.LogsAgent.GetInt("logs_config.stop_grace_period")) * time.Second\<close>
\<close>

definition stop_timeout :: "Config \<Rightarrow> Duration" where
  "stop_timeout cfg = word_of_int (GetInt cfg ''logs_config.stop_grace_period'') * Second"

text \<open>
  \<^verbatim>\<open>Agent.Stop\<close> runs on two threads: the caller, and the goroutine that runs
  \<^verbatim>\<open>stopper.Stop()\<close> and then closes the channel \<open>c\<close>. A step of a trace is an action
  with the thread that takes it. The \<^verbatim>\<open>select\<close> of the caller either receives from
  \<open>c\<close>, which needs \<open>c\<close> closed, or from the timer; real time is not represented, so the
  timer may deliver at any moment. In the second case the caller logs, calls
  \<^verbatim>\<open>a.destinationsCtx.Stop()\<close> and receives from \<open>c\<close>, while the goroutine goes on.
\<close>

datatype thread = Caller | Goroutine

datatype 'c act = Life "'c event" | CloseC | RecvC | TimerFired Duration | LogInfo string

type_synonym 'c step = "thread \<times> 'c act"

text \<open>The goroutine: \<^verbatim>\<open>go func() { stopper.Stop(); close(c) }()\<close>, for one behaviour \<open>s\<close> of
  \<^verbatim>\<open>stopper.Stop()\<close>.\<close>

definition spawned_steps :: "'c event list \<Rightarrow> 'c step list" where
  "spawned_steps s = map (\<lambda>e. (Goroutine, Life e)) s @ [(Goroutine, CloseC)]"

text \<open>The caller in the case \<^verbatim>\<open><-time.After(timeout)\<close>, up to the last \<^verbatim>\<open><-c\<close>.\<close>

definition forced_steps :: "Config \<Rightarrow> ('s, 'v) Agent \<Rightarrow> ('s, 'v) Restartable step list" where
  "forced_steps cfg a =
     [(Caller, TimerFired (stop_timeout cfg)),
      (Caller, LogInfo ''Timed out when stopping logs-agent, forcing it to stop now'')]
     @ map (\<lambda>e. (Caller, Life e)) (call Stop (RDestinationsContext (destinationsCtx a)))"

definition Agent_Stop ::
  "Config \<Rightarrow> ('s, 'v) Agent \<Rightarrow> (('s, 'v) Agent \<times> ('s, 'v) Restartable step list) list" where
  "Agent_Stop cfg a =
     (let stopper = Agent_stopper a;
          spawned = map spawned_steps (stop_traces stopper);
          timely = map (\<lambda>g. g @ [(Caller, RecvC)]) spawned;
          timedout = concat (map (\<lambda>g. map (\<lambda>t. t @ [(Caller, RecvC)])
                                          (interleave (forced_steps cfg a) g)) spawned)
      in map (Pair a) (timely @ timedout))"

text \<open>
  The same call with time. Time is counted in nanoseconds from the moment the caller
  reaches the \<^verbatim>\<open>select\<close>; \<open>d\<close> is the time at which the goroutine closes \<open>c\<close>, that
  is, at which the stop sequence has completed (0 when \<open>c\<close> is closed already). The
  channel of \<^verbatim>\<open>time.After(timeout)\<close> delivers once \<open>timeout\<close> has elapsed, at once
  when \<open>timeout\<close> is not positive. The \<^verbatim>\<open>select\<close> proceeds at the first moment one of
  its cases can, and takes any case that can proceed then: the case \<^verbatim>\<open><-c\<close> needs
  \<open>d\<close> not later than the timer, the case of the timer needs the timer not later than
  \<open>d\<close>, and when the timer is strictly earlier it delivers before \<open>c\<close> is closed.
\<close>

definition timer_ready :: "Config \<Rightarrow> nat" where
  "timer_ready cfg = nat (sint (stop_timeout cfg))"

definition Agent_Stop_at ::
  "Config \<Rightarrow> ('s, 'v) Agent \<Rightarrow> nat \<Rightarrow>
   (('s, 'v) Agent \<times> ('s, 'v) Restartable step list) list" where
  "Agent_Stop_at cfg a d =
     (let stopper = Agent_stopper a;
          spawned = map spawned_steps (stop_traces stopper);
          timely = (if d \<le> timer_ready cfg
                    then map (\<lambda>g. g @ [(Caller, RecvC)]) spawned else []);
          timedout =
            (if timer_ready cfg \<le> d
             then concat (map (\<lambda>g. map (\<lambda>t. t @ [(Caller, RecvC)])
                    (filter (\<lambda>t. timer_ready cfg = d \<or>
                                  precedes (Caller, TimerFired (stop_timeout cfg))
                                    (Goroutine, CloseC) t)
                       (interleave (forced_steps cfg a) g))) spawned)
             else [])
      in map (Pair a) (timely @ timedout))"

text \<open>The steps of one thread, and the lifecycle calls among some steps.\<close>

definition thread_steps :: "thread \<Rightarrow> 'c step list \<Rightarrow> 'c step list" where
  "thread_steps th t = filter (\<lambda>x. fst x = th) t"

fun life_of :: "'c act \<Rightarrow> 'c event list" where
  "life_of (Life e) = [e]"
| "life_of CloseC = []"
| "life_of RecvC = []"
| "life_of (TimerFired d) = []"
| "life_of (LogInfo m) = []"

definition life_events :: "'c step list \<Rightarrow> 'c event list" where
  "life_events t = concat (map (\<lambda>x. life_of (snd x)) t)"

text \<open>
  The order of the stop sequence in the words of the spec: "(1) all source collectors (as
  one ParallelStopper group), then (2) PipelineProvider, then (3) Auditor, then (4)
  DestinationsContext", each group "waiting for full completion before advancing to the
  next group". The Stop calls are those of the inputs, taking turns in some way, then the
  call on the provider, then the one on the auditor, then the one on the context.
\<close>

definition serial_stop_order :: "('s, 'v) Agent \<Rightarrow> ('s, 'v) Restartable event list \<Rightarrow> bool" where
  "serial_stop_order a t =
     (\<exists>il \<in> set (par_traces (map (\<lambda>i. [call Stop i]) (inputs a))).
        t = il @ call Stop (RProvider (pipelineProvider a)) @ call Stop (RAuditor (auditor a))
              @ call Stop (RDestinationsContext (destinationsCtx a)))"

section \<open>Concrete inputs\<close>

definition ep_main :: Endpoint where
  "ep_main = \<lparr>Host = ''main.example'', APIKey = ''k0'', UseProto = True\<rparr>"

definition ep_extra :: Endpoint where
  "ep_extra = \<lparr>Host = ''extra.example'', APIKey = ''k1'', UseProto = False\<rparr>"

definition eps0 :: Endpoints where
  "eps0 = \<lparr>Main = ep_main, Additionals = [ep_extra]\<rparr>"

definition eps1 :: Endpoints where
  "eps1 = \<lparr>Main = ep_main, Additionals = []\<rparr>"

definition store0 :: "string store" where
  "store0 = [\<lparr>cap = 3, buf = []\<rparr>]"

definition ops0 :: "(chan_ref \<times> string chan_op) list" where
  "ops0 = [(2, Send ''a''), (2, Send ''b''), (2, Send ''c''), (1, Send ''d''), (2, Recv)]"

definition pipe0 :: "nat Pipeline" where
  "pipe0 = \<lparr>InputChan = 2,
            processor = \<lparr>proc_inputChan = 2, proc_outputChan = 1, encoder = ProtoEncoder\<rparr>,
            sender = \<lparr>send_inputChan = 1, send_outputChan = 0,
                      destinations =
                        \<lparr>Dest_Main = \<lparr>endpoint = ep_main, destinationsContext = 5\<rparr>,
                         Dest_Additionals = [\<lparr>endpoint = ep_extra, destinationsContext = 5\<rparr>]\<rparr>\<rparr>\<rparr>"

definition cfg0 :: Config where
  "cfg0 = \<lparr>ints = (\<lambda>k. if k = ''logs_config.pipeline.buffer_size'' then 2
                       else if k = ''logs_config.stop_grace_period'' then 30 else 1),
           strings = (\<lambda>k. ''/opt/run'')\<rparr>"


definition aud0 :: Auditor where
  "aud0 = NewAuditor ''/opt/run'' 2 (Register ''logs-agent'')"

definition prov0 :: Provider where
  "prov0 = NewProvider 1 2 aud0 eps1 NewDestinationsContext"

definition agent0 :: "(string, string) Agent" where
  "agent0 = \<lparr>auditor = aud0, destinationsCtx = NewDestinationsContext, pipelineProvider = prov0,
             inputs = [RInput (JournaldLauncher ''src'' prov0 aud0)],
             health = Register ''logs-agent''\<rparr>"

definition timedout0 :: "(string, string) Restartable step list" where
  "timedout0 =
     [(Goroutine, Life (Invoke Stop (RInput (JournaldLauncher ''src'' prov0 aud0)))),
      (Caller, TimerFired 30000000000),
      (Caller, LogInfo ''Timed out when stopping logs-agent, forcing it to stop now''),
      (Caller, Life (Invoke Stop (RDestinationsContext DestinationsContext))),
      (Caller, Life (Return Stop (RDestinationsContext DestinationsContext))),
      (Goroutine, Life (Return Stop (RInput (JournaldLauncher ''src'' prov0 aud0)))),
      (Goroutine, Life (Invoke Stop (RProvider prov0))),
      (Goroutine, Life (Return Stop (RProvider prov0))),
      (Goroutine, Life (Invoke Stop (RAuditor aud0))),
      (Goroutine, Life (Return Stop (RAuditor aud0))),
      (Goroutine, Life (Invoke Stop (RDestinationsContext DestinationsContext))),
      (Goroutine, Life (Return Stop (RDestinationsContext DestinationsContext))),
      (Goroutine, CloseC),
      (Caller, RecvC)]"

definition timely0 :: "(string, string) Restartable step list" where
  "timely0 =
     [(Goroutine, Life (Invoke Stop (RInput (JournaldLauncher ''src'' prov0 aud0)))),
      (Goroutine, Life (Return Stop (RInput (JournaldLauncher ''src'' prov0 aud0)))),
      (Goroutine, Life (Invoke Stop (RProvider prov0))),
      (Goroutine, Life (Return Stop (RProvider prov0))),
      (Goroutine, Life (Invoke Stop (RAuditor aud0))),
      (Goroutine, Life (Return Stop (RAuditor aud0))),
      (Goroutine, Life (Invoke Stop (RDestinationsContext DestinationsContext))),
      (Goroutine, Life (Return Stop (RDestinationsContext DestinationsContext))),
      (Goroutine, CloseC),
      (Caller, RecvC)]"

section \<open>Facts about channels and the store\<close>

lemma precedes_iff:
  "precedes x y t \<longleftrightarrow> (\<forall>i < length t. \<forall>j < length t. t ! i = y \<and> t ! j = x \<longrightarrow> j < i)"
proof (induction t)
  case Nil
  then show ?case by (simp add: precedes_def)
next
  case (Cons e t)
  show ?case
  proof (cases "e = y")
    case True
    have "x \<notin> set (e # t) \<longleftrightarrow>
          (\<forall>i < length (e # t). \<forall>j < length (e # t). (e # t) ! i = y \<and> (e # t) ! j = x \<longrightarrow> j < i)"
    proof
      assume a: "x \<notin> set (e # t)"
      show "\<forall>i < length (e # t). \<forall>j < length (e # t). (e # t) ! i = y \<and> (e # t) ! j = x \<longrightarrow> j < i"
        using a by (metis nth_mem)
    next
      assume b: "\<forall>i < length (e # t). \<forall>j < length (e # t). (e # t) ! i = y \<and> (e # t) ! j = x \<longrightarrow> j < i"
      show "x \<notin> set (e # t)"
      proof
        assume "x \<in> set (e # t)"
        then obtain j where j: "j < length (e # t)" "(e # t) ! j = x"
          by (meson in_set_conv_nth)
        from b [rule_format, of 0 j] True j show False by simp
      qed
    qed
    with True show ?thesis by (simp add: precedes_def)
  next
    case False
    have "(\<forall>i < length (e # t). \<forall>j < length (e # t). (e # t) ! i = y \<and> (e # t) ! j = x \<longrightarrow> j < i)
       \<longleftrightarrow> (\<forall>i < length t. \<forall>j < length t. t ! i = y \<and> t ! j = x \<longrightarrow> j < i)"
      (is "?L \<longleftrightarrow> ?R")
    proof
      assume l: ?L
      show ?R
      proof (intro allI impI)
        fix i j assume "i < length t" "j < length t" "t ! i = y \<and> t ! j = x"
        with l [rule_format, of "Suc i" "Suc j"] show "j < i" by simp
      qed
    next
      assume r: ?R
      show ?L
      proof (intro allI impI)
        fix i j
        assume h: "i < length (e # t)" "j < length (e # t)" "(e # t) ! i = y \<and> (e # t) ! j = x"
        show "j < i"
        proof (cases i)
          case 0
          with h False show ?thesis by simp
        next
          case (Suc i')
          show ?thesis
          proof (cases j)
            case 0
            with Suc show ?thesis by simp
          next
            case (Suc j')
            with \<open>i = Suc i'\<close> h r [rule_format, of i' j'] show ?thesis by simp
          qed
        qed
      qed
    qed
    with False Cons.IH show ?thesis by (simp add: precedes_def)
  qed
qed

lemma chan_step_cap: "cap (chan_step c opn) = cap c"
  by (cases opn) (auto simp: chan_send_def chan_recv_def split: option.splits list.splits)

lemma chan_step_bounded: "length (buf c) \<le> cap c \<Longrightarrow> length (buf (chan_step c opn)) \<le> cap c"
  by (cases opn) (auto simp: chan_send_def chan_recv_def split: option.splits list.splits)

lemma chan_send_fifo: "chan_send c m = Some c' \<Longrightarrow> buf c' = buf c @ [m] \<and> cap c' = cap c"
  by (auto simp: chan_send_def split: if_splits)

lemma chan_recv_fifo: "chan_recv c = Some (m, c') \<Longrightarrow> buf c = m # buf c' \<and> cap c' = cap c"
  by (auto simp: chan_recv_def split: list.splits)

lemma store_step_length: "length (store_step h x) = length h"
  by (cases x) (simp add: store_step_def)

lemma store_step_cap: "r < length h \<Longrightarrow> cap (store_step h x ! r) = cap (h ! r)"
  by (cases x) (simp add: store_step_def nth_list_update chan_step_cap)

lemma store_step_bounded:
  "r < length h \<Longrightarrow> length (buf (h ! r)) \<le> cap (h ! r) \<Longrightarrow>
   length (buf (store_step h x ! r)) \<le> cap (h ! r)"
  by (cases x) (simp add: store_step_def nth_list_update chan_step_bounded)

lemma store_run_inv:
  "r < length h \<Longrightarrow> length (buf (h ! r)) \<le> cap (h ! r) \<Longrightarrow>
   r < length (store_run h ops) \<and> cap (store_run h ops ! r) = cap (h ! r) \<and>
   length (buf (store_run h ops ! r)) \<le> cap (h ! r)"
  unfolding store_run_def
proof (induction ops arbitrary: h)
  case Nil
  then show ?case by simp
next
  case (Cons x ops)
  have a: "r < length (store_step h x)" using Cons.prems by (simp add: store_step_length)
  have b: "cap (store_step h x ! r) = cap (h ! r)" using Cons.prems by (simp add: store_step_cap)
  have c: "length (buf (store_step h x ! r)) \<le> cap (store_step h x ! r)"
    using Cons.prems b by (simp add: store_step_bounded)
  from Cons.IH [OF a c] b show ?case by simp
qed

section \<open>NewPipeline\<close>

lemma additionals_loop: "foldl (\<lambda>acc e. acc @ [f e]) acc es = acc @ map f es"
  by (induction es arbitrary: acc) simp_all

lemma NewPipeline_Inr:
  assumes "NewPipeline lim out B eps ctx h = Inr (p, h')"
  shows "0 \<le> B \<and> B \<le> int lim \<and>
    h' = h @ [\<lparr>cap = nat B, buf = []\<rparr>, \<lparr>cap = nat B, buf = []\<rparr>] \<and>
    p = \<lparr>InputChan = Suc (length h),
         processor = NewProcessor (Suc (length h)) (length h) (NewEncoder (UseProto (Main eps))),
         sender = NewSender (length h) out
           (NewDestinations (NewDestination (Main eps) ctx)
              (map (\<lambda>e. NewDestination e ctx) (Additionals eps)))\<rparr>"
  using assms
  by (auto simp: NewPipeline_def Let_def additionals_loop alloc_chan_def make_chan_def
      split: sum.splits if_splits)

lemma NewPipeline_succeeds:
  "0 \<le> B \<Longrightarrow> B \<le> int lim \<Longrightarrow> \<exists>p h'. NewPipeline lim out B eps ctx h = Inr (p, h')"
  by (simp add: NewPipeline_def Let_def alloc_chan_def make_chan_def)

lemma NewPipeline_pipe0: "NewPipeline 8 0 2 eps0 (5::nat) store0 =
    Inr (pipe0, store0 @ [\<lparr>cap = 2, buf = []\<rparr>, \<lparr>cap = 2, buf = []\<rparr>])"
  by (simp add: NewPipeline_def Let_def alloc_chan_def make_chan_def NewSender_def
      NewProcessor_def NewDestinations_def NewDestination_def NewEncoder_def eps0_def
      ep_main_def ep_extra_def store0_def pipe0_def)

lemma NewAgent_bufferSize:
  "chanSize (auditor (NewAgent sleep cfg sources services endpoints)) =
     GetInt cfg ''logs_config.pipeline.buffer_size'' \<and>
   prov_chanSize (pipelineProvider (NewAgent sleep cfg sources services endpoints)) =
     GetInt cfg ''logs_config.pipeline.buffer_size''"
  by (simp add: NewAgent_def Let_def NewAuditor_def NewProvider_def)

text \<open>
  C6. Whenever NewPipeline returns a Pipeline for the buffer size \<open>B\<close>, the entry queue
  (InputChan, which the Processor reads) and the queue between the stages (which the
  Processor writes and the Sender reads) are two distinct channels created empty with
  capacity exactly \<open>B\<close>, and after any sequence of sends and receives on the channels of
  the store each of them still has capacity \<open>B\<close> and holds at most \<open>B\<close> messages. NewAgent
  hands the one value of \<open>logs_config.pipeline.buffer_size\<close> to the Auditor and to the
  pipeline provider.
\<close>

theorem NewPipeline_queues_bounded:
  assumes "NewPipeline lim out B eps ctx h = Inr (p, h')"
  shows "proc_inputChan (processor p) = InputChan p \<and>
         proc_outputChan (processor p) = send_inputChan (sender p) \<and>
         InputChan p \<noteq> send_inputChan (sender p) \<and>
         h' ! InputChan p = \<lparr>cap = nat B, buf = []\<rparr> \<and>
         h' ! send_inputChan (sender p) = \<lparr>cap = nat B, buf = []\<rparr> \<and>
         int (cap (store_run h' ops ! InputChan p)) = B \<and>
         int (length (buf (store_run h' ops ! InputChan p))) \<le> B \<and>
         int (cap (store_run h' ops ! send_inputChan (sender p))) = B \<and>
         int (length (buf (store_run h' ops ! send_inputChan (sender p)))) \<le> B \<and>
         chanSize (auditor (NewAgent sleep cfg sources services endpoints)) =
           GetInt cfg ''logs_config.pipeline.buffer_size'' \<and>
         prov_chanSize (pipelineProvider (NewAgent sleep cfg sources services endpoints)) =
           GetInt cfg ''logs_config.pipeline.buffer_size''"
proof -
  from NewPipeline_Inr [OF assms]
  have B: "0 \<le> B"
    and h': "h' = h @ [\<lparr>cap = nat B, buf = []\<rparr>, \<lparr>cap = nat B, buf = []\<rparr>]"
    and inp: "InputChan p = Suc (length h)"
    and snd: "send_inputChan (sender p) = length h"
    and pin: "proc_inputChan (processor p) = Suc (length h)"
    and pout: "proc_outputChan (processor p) = length h"
    by (simp_all add: NewProcessor_def NewSender_def)
  have c1: "h' ! Suc (length h) = \<lparr>cap = nat B, buf = []\<rparr>"
    by (simp add: h' nth_append)
  have c0: "h' ! length h = \<lparr>cap = nat B, buf = []\<rparr>"
    by (simp add: h' nth_append)
  have r1: "cap (store_run h' ops ! Suc (length h)) = cap (h' ! Suc (length h)) \<and>
            length (buf (store_run h' ops ! Suc (length h))) \<le> cap (h' ! Suc (length h))"
    using store_run_inv [of "Suc (length h)" h' ops] by (simp add: c1) (simp add: h')
  have r0: "cap (store_run h' ops ! length h) = cap (h' ! length h) \<and>
            length (buf (store_run h' ops ! length h)) \<le> cap (h' ! length h)"
    using store_run_inv [of "length h" h' ops] by (simp add: c0) (simp add: h')
  from r1 B have q1: "int (cap (store_run h' ops ! Suc (length h))) = B \<and>
      int (length (buf (store_run h' ops ! Suc (length h)))) \<le> B"
    by (auto simp: c1)
  from r0 B have q0: "int (cap (store_run h' ops ! length h)) = B \<and>
      int (length (buf (store_run h' ops ! length h))) \<le> B"
    by (auto simp: c0)
  show ?thesis
    using q0 q1 c0 c1 NewAgent_bufferSize [of sleep cfg sources services endpoints]
    by (simp add: inp snd pin pout)
qed

theorem NewPipeline_queues_bounded_witness:
  "NewPipeline 8 0 2 eps0 (5::nat) store0 =
     Inr (pipe0, store0 @ [\<lparr>cap = 2, buf = []\<rparr>, \<lparr>cap = 2, buf = []\<rparr>]) \<and>
   int (cap (store_run (store0 @ [\<lparr>cap = 2, buf = []\<rparr>, \<lparr>cap = 2, buf = []\<rparr>]) ops0
              ! InputChan pipe0)) = 2 \<and>
   int (length (buf (store_run (store0 @ [\<lparr>cap = 2, buf = []\<rparr>, \<lparr>cap = 2, buf = []\<rparr>]) ops0
                      ! InputChan pipe0))) \<le> 2 \<and>
   buf (store_run (store0 @ [\<lparr>cap = 2, buf = []\<rparr>, \<lparr>cap = 2, buf = []\<rparr>]) ops0
          ! InputChan pipe0) = [''b''] \<and>
   chanSize (auditor (NewAgent 1000000000 cfg0 ''src'' ''svc'' eps0)) = 2"
proof -
  have b: "buf (store_run (store0 @ [\<lparr>cap = 2, buf = []\<rparr>, \<lparr>cap = 2, buf = []\<rparr>]) ops0
                 ! InputChan pipe0) = [''b'']"
    by (simp add: store_run_def store_step_def store0_def ops0_def pipe0_def chan_send_def
        chan_recv_def)
  have g: "GetInt cfg0 ''logs_config.pipeline.buffer_size'' = 2"
    by (simp add: GetInt_def cfg0_def)
  show ?thesis
    using NewPipeline_queues_bounded [OF NewPipeline_pipe0, of ops0 1000000000 cfg0 "''src''"
        "''svc''" eps0] NewPipeline_pipe0 b g
    by simp
qed

text \<open>
  C7. Whenever NewPipeline returns a Pipeline, the Destinations of its Sender hold as main
  the Destination built from \<open>endpoints.Main\<close>, and as additionals one Destination per
  entry of \<open>endpoints.Additionals\<close>, in the same order; the main and every additional
  Destination reference the DestinationsContext that NewPipeline was given.
\<close>

theorem NewPipeline_destinations:
  assumes "NewPipeline lim out B eps ctx h = Inr (p, h')"
  shows "Dest_Main (destinations (sender p)) = NewDestination (Main eps) ctx \<and>
         endpoint (Dest_Main (destinations (sender p))) = Main eps \<and>
         map endpoint (Dest_Additionals (destinations (sender p))) = Additionals eps \<and>
         length (Dest_Additionals (destinations (sender p))) = length (Additionals eps) \<and>
         (\<forall>d \<in> set (Dest_Main (destinations (sender p)) #
                     Dest_Additionals (destinations (sender p))).
            destinationsContext d = ctx)"
proof -
  from NewPipeline_Inr [OF assms]
  have d: "destinations (sender p) =
      NewDestinations (NewDestination (Main eps) ctx)
        (map (\<lambda>e. NewDestination e ctx) (Additionals eps))"
    by (simp add: NewSender_def)
  have m: "map endpoint (map (\<lambda>e. NewDestination e ctx) (Additionals eps)) = Additionals eps"
    by (induction "Additionals eps") (simp_all add: NewDestination_def comp_def)
  show ?thesis
    using m by (auto simp: d NewDestinations_def NewDestination_def)
qed

theorem NewPipeline_destinations_witness:
  "NewPipeline 8 0 2 eps0 (5::nat) store0 =
     Inr (pipe0, store0 @ [\<lparr>cap = 2, buf = []\<rparr>, \<lparr>cap = 2, buf = []\<rparr>]) \<and>
   endpoint (Dest_Main (destinations (sender pipe0))) = ep_main \<and>
   map endpoint (Dest_Additionals (destinations (sender pipe0))) = [ep_extra] \<and>
   map destinationsContext (Dest_Main (destinations (sender pipe0)) #
                            Dest_Additionals (destinations (sender pipe0))) = [5, 5]"
  using NewPipeline_destinations [OF NewPipeline_pipe0] NewPipeline_pipe0
  by (simp add: eps0_def NewDestination_def pipe0_def)

text \<open>
  C8. Whenever NewPipeline returns a Pipeline, the encoder of its Processor is the one
  NewEncoder builds from \<open>endpoints.Main.UseProto\<close>; two calls of NewPipeline whose main
  endpoints carry the same flag give the same encoder, whatever their other arguments
  and their additional endpoints are.
\<close>

theorem NewPipeline_encoder:
  assumes "NewPipeline lim out B eps ctx h = Inr (p, h')"
    and "NewPipeline lim2 out2 B2 eps2 ctx2 h2 = Inr (p2, h2')"
    and "UseProto (Main eps2) = UseProto (Main eps)"
  shows "encoder (processor p) = NewEncoder (UseProto (Main eps)) \<and>
         encoder (processor p2) = encoder (processor p)"
  using NewPipeline_Inr [OF assms(1)] NewPipeline_Inr [OF assms(2)] assms(3)
  by (simp add: NewProcessor_def)

theorem NewPipeline_encoder_witness:
  "NewPipeline 8 0 2 eps0 (5::nat) store0 =
     Inr (pipe0, store0 @ [\<lparr>cap = 2, buf = []\<rparr>, \<lparr>cap = 2, buf = []\<rparr>]) \<and>
   UseProto (Main eps1) = UseProto (Main eps0) \<and> Additionals eps1 \<noteq> Additionals eps0 \<and>
   encoder (processor pipe0) = ProtoEncoder \<and>
   (\<exists>p2 h2'. NewPipeline 4 3 1 eps1 (6::nat) ([] :: string store) = Inr (p2, h2') \<and>
      encoder (processor p2) = encoder (processor pipe0))"
proof -
  obtain p2 h2' where e2: "NewPipeline 4 3 1 eps1 (6::nat) ([] :: string store) = Inr (p2, h2')"
    using NewPipeline_succeeds [of 1 4 3 eps1 "6::nat" "[] :: string store"] by auto
  have f: "UseProto (Main eps1) = UseProto (Main eps0)"
    by (simp add: eps0_def eps1_def)
  have a: "Additionals eps1 \<noteq> Additionals eps0"
    by (simp add: eps0_def eps1_def)
  have n: "NewEncoder (UseProto (Main eps0)) = ProtoEncoder"
    by (simp add: NewEncoder_def eps0_def ep_main_def)
  from NewPipeline_encoder [OF NewPipeline_pipe0 e2 f] NewPipeline_pipe0 e2 f a n
  show ?thesis by auto
qed

text \<open>
  C10. NewPipeline checks nothing about \<open>bufferSize\<close>: with a negative size the first
  channel allocation panics and no Pipeline is returned, and with size 0 a Pipeline is
  returned whose two queues have capacity 0, so that no message is ever buffered and
  every send has to wait for its receiver.
\<close>

theorem NewPipeline_bufferSize_unchecked:
  "(B < 0 \<longrightarrow> NewPipeline lim out B eps ctx h = Inl MakechanSizeOutOfRange) \<and>
   (\<exists>p h'. NewPipeline lim out 0 eps ctx h = Inr (p, h') \<and>
      cap (h' ! InputChan p) = 0 \<and> cap (h' ! send_inputChan (sender p)) = 0 \<and>
      (\<forall>m. chan_send (h' ! InputChan p) m = None \<and>
           chan_send (h' ! send_inputChan (sender p)) m = None))"
  by (simp add: NewPipeline_def Let_def alloc_chan_def make_chan_def NewSender_def
      chan_send_def nth_append)

theorem NewPipeline_bufferSize_unchecked_witness:
  "(-1::int) < 0 \<and> NewPipeline 8 0 (-1) eps0 (5::nat) store0 = Inl MakechanSizeOutOfRange \<and>
   (\<exists>p h'. NewPipeline 8 0 0 eps0 (5::nat) store0 = Inr (p, h') \<and> cap (h' ! InputChan p) = 0)"
  using NewPipeline_bufferSize_unchecked [of "-1" 8 0 eps0 "5::nat" store0]
  by auto

section \<open>Pipeline.Start and Pipeline.Stop\<close>

text \<open>
  C4. Pipeline.Stop calls Stop on the Processor and, once that call has returned, Stop on
  the Sender: the trace is the Processor's invocation and return followed by the Sender's,
  and the return of the Processor's Stop precedes the invocation of the Sender's.
\<close>

theorem Pipeline_Stop_order:
  "Pipeline_Stop p =
     [Invoke Stop (ProcessorStage (processor p)), Return Stop (ProcessorStage (processor p)),
      Invoke Stop (SenderStage (sender p)), Return Stop (SenderStage (sender p))] \<and>
   precedes (Return Stop (ProcessorStage (processor p))) (Invoke Stop (SenderStage (sender p)))
     (Pipeline_Stop p)"
  by (simp add: Pipeline_Stop_def call_def precedes_def)

theorem Pipeline_Stop_order_witness:
  "Pipeline_Stop pipe0 =
     [Invoke Stop (ProcessorStage (processor pipe0)),
      Return Stop (ProcessorStage (processor pipe0)),
      Invoke Stop (SenderStage (sender pipe0)), Return Stop (SenderStage (sender pipe0))] \<and>
   precedes (Return Stop (ProcessorStage (processor pipe0)))
     (Invoke Stop (SenderStage (sender pipe0))) (Pipeline_Stop pipe0)"
  using Pipeline_Stop_order [of pipe0] .

text \<open>
  C5. Pipeline.Start calls Start on the Sender and, once that call has returned, Start on
  the Processor: the trace is the Sender's invocation and return followed by the
  Processor's, and the return of the Sender's Start precedes the invocation of the
  Processor's.
\<close>

theorem Pipeline_Start_order:
  "Pipeline_Start p =
     [Invoke Start (SenderStage (sender p)), Return Start (SenderStage (sender p)),
      Invoke Start (ProcessorStage (processor p)), Return Start (ProcessorStage (processor p))] \<and>
   precedes (Return Start (SenderStage (sender p))) (Invoke Start (ProcessorStage (processor p)))
     (Pipeline_Start p)"
  by (simp add: Pipeline_Start_def call_def precedes_def)

theorem Pipeline_Start_order_witness:
  "Pipeline_Start pipe0 =
     [Invoke Start (SenderStage (sender pipe0)), Return Start (SenderStage (sender pipe0)),
      Invoke Start (ProcessorStage (processor pipe0)),
      Return Start (ProcessorStage (processor pipe0))] \<and>
   precedes (Return Start (SenderStage (sender pipe0)))
     (Invoke Start (ProcessorStage (processor pipe0))) (Pipeline_Start pipe0)"
  using Pipeline_Start_order [of pipe0] .


section \<open>Interleavings\<close>

lemma interleave_Nil2: "interleave xs [] = [xs]"
  by (cases xs) simp_all

lemma interleave_left:
  "t \<in> set (interleave xs ys) \<Longrightarrow> x # t \<in> set (interleave (x # xs) ys)"
  by (cases ys) (auto simp: interleave_Nil2)

lemma interleave_right:
  "t \<in> set (interleave xs ys) \<Longrightarrow> y # t \<in> set (interleave xs (y # ys))"
  by (cases xs) auto

lemma interleave_append_mem: "xs @ ys \<in> set (interleave xs ys)"
  by (induction xs) (simp_all add: interleave_left)

lemma interleave_filter:
  "t \<in> set (interleave xs ys) \<Longrightarrow> \<forall>x \<in> set xs. P x \<Longrightarrow> \<forall>y \<in> set ys. \<not> P y \<Longrightarrow>
   filter P t = xs \<and> filter (\<lambda>x. \<not> P x) t = ys"
proof (induction xs ys arbitrary: t rule: interleave.induct)
  case (1 ys)
  then show ?case by simp
next
  case (2 x xs)
  then show ?case by simp
next
  case (3 x xs y ys)
  from "3.prems"(1) consider
    (l) u where "t = x # u" "u \<in> set (interleave xs (y # ys))"
    | (r) u where "t = y # u" "u \<in> set (interleave (x # xs) ys)"
    by auto
  then show ?case
  proof cases
    case l
    with "3.IH"(1) [of u] "3.prems" show ?thesis by simp
  next
    case r
    with "3.IH"(2) [of u] "3.prems" show ?thesis by simp
  qed
qed


lemma par_traces_nonempty: "\<forall>T \<in> set Ts. T \<noteq> [] \<Longrightarrow> par_traces Ts \<noteq> []"
proof (induction Ts)
  case Nil
  then show ?case by simp
next
  case (Cons T Ts)
  then obtain t where t: "t \<in> set T" by (cases T) auto
  from Cons obtain u where u: "u \<in> set (par_traces Ts)" by (cases "par_traces Ts") auto
  have "t @ u \<in> set (interleave t u)" by (rule interleave_append_mem)
  with t u have m: "t @ u \<in> set (par_traces (T # Ts))" by auto
  show ?case
  proof
    assume "par_traces (T # Ts) = []"
    with m have "t @ u \<in> set []" by (simp only:)
    then show False by simp
  qed
qed

section \<open>Agent.Start\<close>

lemma Starter_Add_loop: "foldl Starter_Add s xs = s\<lparr>components := components s @ xs\<rparr>"
  by (induction xs arbitrary: s) (simp_all add: Starter_Add_def)

lemma Agent_Start_trace:
  "snd (Agent_Start a) =
     concat (map (call Start)
       ([RDestinationsContext (destinationsCtx a), RAuditor (auditor a),
         RProvider (pipelineProvider a)] @ inputs a))"
  by (simp add: Agent_Start_def Let_def Starter_Add_loop NewStarter_def Starter_Start_def)

lemma calls_nth:
  "i < length ms \<Longrightarrow>
   concat (map (call m) ms) ! (2 * i) = Invoke m (ms ! i) \<and>
   concat (map (call m) ms) ! (2 * i + 1) = Return m (ms ! i)"
proof (induction ms arbitrary: i)
  case Nil
  then show ?case by simp
next
  case (Cons c ms)
  show ?case
  proof (cases i)
    case 0
    then show ?thesis by (simp add: call_def)
  next
    case (Suc k)
    with Cons.prems have "k < length ms" by simp
    from Cons.IH [OF this] Suc show ?thesis by (simp add: call_def)
  qed
qed

lemma calls_length: "length (concat (map (call m) ms)) = 2 * length ms"
  by (induction ms) (simp_all add: call_def)

text \<open>
  C3. Agent.Start calls Start on the DestinationsContext, then on the Auditor, then on the
  pipeline provider, then on every input in the order of the slice \<open>inputs\<close>; the trace
  consists of these calls alone, the call on the \<open>i\<close>-th member being invoked at position
  \<open>2i\<close> and returning at position \<open>2i + 1\<close>, before the next member's call is invoked.
  The inputs of an Agent built by NewAgent are, in the order of their construction, the
  file scanner, the container launcher, the listener launcher, the journald launcher and
  the windows event launcher.
\<close>

theorem Agent_Start_order:
  "snd (Agent_Start a) =
     call Start (RDestinationsContext (destinationsCtx a)) @ call Start (RAuditor (auditor a)) @
     call Start (RProvider (pipelineProvider a)) @ concat (map (call Start) (inputs a)) \<and>
   length (snd (Agent_Start a)) = 2 * (3 + length (inputs a)) \<and>
   (\<forall>i < 3 + length (inputs a).
      snd (Agent_Start a) ! (2 * i) =
        Invoke Start (([RDestinationsContext (destinationsCtx a), RAuditor (auditor a),
                        RProvider (pipelineProvider a)] @ inputs a) ! i) \<and>
      snd (Agent_Start a) ! (2 * i + 1) =
        Return Start (([RDestinationsContext (destinationsCtx a), RAuditor (auditor a),
                        RProvider (pipelineProvider a)] @ inputs a) ! i)) \<and>
   inputs (NewAgent sleep cfg sources services endpoints) =
     [RInput (Scanner sources (GetInt cfg ''logs_config.open_files_limit'')
                (pipelineProvider (NewAgent sleep cfg sources services endpoints))
                (auditor (NewAgent sleep cfg sources services endpoints)) sleep),
      RInput (ContainerLauncher sources services
                (pipelineProvider (NewAgent sleep cfg sources services endpoints))
                (auditor (NewAgent sleep cfg sources services endpoints))),
      RInput (ListenerLauncher sources (GetInt cfg ''logs_config.frame_size'')
                (pipelineProvider (NewAgent sleep cfg sources services endpoints))),
      RInput (JournaldLauncher sources
                (pipelineProvider (NewAgent sleep cfg sources services endpoints))
                (auditor (NewAgent sleep cfg sources services endpoints))),
      RInput (WindowsEventLauncher sources
                (pipelineProvider (NewAgent sleep cfg sources services endpoints)))]"
proof -
  let ?ms = "[RDestinationsContext (destinationsCtx a), RAuditor (auditor a),
              RProvider (pipelineProvider a)] @ inputs a"
  have t: "snd (Agent_Start a) = concat (map (call Start) ?ms)"
    by (rule Agent_Start_trace)
  have 1: "snd (Agent_Start a) =
     call Start (RDestinationsContext (destinationsCtx a)) @ call Start (RAuditor (auditor a)) @
     call Start (RProvider (pipelineProvider a)) @ concat (map (call Start) (inputs a))"
    by (simp add: t)
  have 2: "length (snd (Agent_Start a)) = 2 * (3 + length (inputs a))"
    unfolding t calls_length by simp
  have 3: "\<forall>i < 3 + length (inputs a).
      snd (Agent_Start a) ! (2 * i) = Invoke Start (?ms ! i) \<and>
      snd (Agent_Start a) ! (2 * i + 1) = Return Start (?ms ! i)"
  proof (intro allI impI)
    fix i assume "i < 3 + length (inputs a)"
    then have "i < length ?ms" by simp
    from calls_nth [OF this, of Start] show
      "snd (Agent_Start a) ! (2 * i) = Invoke Start (?ms ! i) \<and>
       snd (Agent_Start a) ! (2 * i + 1) = Return Start (?ms ! i)"
      unfolding t .
  qed
  have 4: "inputs (NewAgent sleep cfg sources services endpoints) =
     [RInput (Scanner sources (GetInt cfg ''logs_config.open_files_limit'')
                (pipelineProvider (NewAgent sleep cfg sources services endpoints))
                (auditor (NewAgent sleep cfg sources services endpoints)) sleep),
      RInput (ContainerLauncher sources services
                (pipelineProvider (NewAgent sleep cfg sources services endpoints))
                (auditor (NewAgent sleep cfg sources services endpoints))),
      RInput (ListenerLauncher sources (GetInt cfg ''logs_config.frame_size'')
                (pipelineProvider (NewAgent sleep cfg sources services endpoints))),
      RInput (JournaldLauncher sources
                (pipelineProvider (NewAgent sleep cfg sources services endpoints))
                (auditor (NewAgent sleep cfg sources services endpoints))),
      RInput (WindowsEventLauncher sources
                (pipelineProvider (NewAgent sleep cfg sources services endpoints)))]"
    by (simp add: NewAgent_def Let_def)
  from 1 2 3 4 show ?thesis by blast
qed

theorem Agent_Start_order_witness:
  "snd (Agent_Start agent0) =
     [Invoke Start (RDestinationsContext DestinationsContext),
      Return Start (RDestinationsContext DestinationsContext),
      Invoke Start (RAuditor aud0), Return Start (RAuditor aud0),
      Invoke Start (RProvider prov0), Return Start (RProvider prov0),
      Invoke Start (RInput (JournaldLauncher ''src'' prov0 aud0)),
      Return Start (RInput (JournaldLauncher ''src'' prov0 aud0))] \<and>
   (3::nat) < 3 + length (inputs agent0) \<and>
   snd (Agent_Start agent0) ! (2 * 3) = Invoke Start (RInput (JournaldLauncher ''src'' prov0 aud0))"
proof -
  have l: "(3::nat) < 3 + length (inputs agent0)" by (simp add: agent0_def)
  from Agent_Start_order [of agent0 0 cfg0 "''src''" "''svc''" eps0]
  have e: "snd (Agent_Start agent0) =
      call Start (RDestinationsContext (destinationsCtx agent0)) @
      call Start (RAuditor (auditor agent0)) @
      call Start (RProvider (pipelineProvider agent0)) @
      concat (map (call Start) (inputs agent0))"
    and n: "\<forall>i < 3 + length (inputs agent0).
      snd (Agent_Start agent0) ! (2 * i) =
        Invoke Start (([RDestinationsContext (destinationsCtx agent0), RAuditor (auditor agent0),
                        RProvider (pipelineProvider agent0)] @ inputs agent0) ! i) \<and>
      snd (Agent_Start agent0) ! (2 * i + 1) =
        Return Start (([RDestinationsContext (destinationsCtx agent0), RAuditor (auditor agent0),
                        RProvider (pipelineProvider agent0)] @ inputs agent0) ! i)"
    by blast+
  from n l have "snd (Agent_Start agent0) ! (2 * 3) =
      Invoke Start (([RDestinationsContext (destinationsCtx agent0), RAuditor (auditor agent0),
                        RProvider (pipelineProvider agent0)] @ inputs agent0) ! 3)"
    by blast
  then have k: "snd (Agent_Start agent0) ! (2 * 3) =
      Invoke Start (RInput (JournaldLauncher ''src'' prov0 aud0))"
    by (simp add: agent0_def)
  from e have e': "snd (Agent_Start agent0) =
     [Invoke Start (RDestinationsContext DestinationsContext),
      Return Start (RDestinationsContext DestinationsContext),
      Invoke Start (RAuditor aud0), Return Start (RAuditor aud0),
      Invoke Start (RProvider prov0), Return Start (RProvider prov0),
      Invoke Start (RInput (JournaldLauncher ''src'' prov0 aud0)),
      Return Start (RInput (JournaldLauncher ''src'' prov0 aud0))]"
    by (simp add: agent0_def call_def NewDestinationsContext_def)
  from e' l k show ?thesis by blast
qed

section \<open>Agent.Stop\<close>

lemma Stopper_Add_loop:
  "foldl Stopper_Add (ParallelStopper ms) xs = ParallelStopper (ms @ xs)"
  by (induction xs arbitrary: ms) simp_all

lemma Agent_stopper_eq:
  "Agent_stopper a =
     SerialStopper
       [ParallelStopper (map Component (inputs a)), Component (RProvider (pipelineProvider a)),
        Component (RAuditor (auditor a)), Component (RDestinationsContext (destinationsCtx a))]"
  by (simp add: Agent_stopper_def Let_def NewParallelStopper_def NewSerialStopper_def
      Stopper_Add_loop)

lemma stop_traces_Agent_stopper:
  "stop_traces (Agent_stopper a) =
     map (\<lambda>il. il @ call Stop (RProvider (pipelineProvider a)) @ call Stop (RAuditor (auditor a))
                  @ call Stop (RDestinationsContext (destinationsCtx a)))
       (par_traces (map (\<lambda>i. [call Stop i]) (inputs a)))"
  by (simp add: Agent_stopper_eq comp_def concat_map_singleton)

lemma stop_traces_serial_order:
  "s \<in> set (stop_traces (Agent_stopper a)) \<longleftrightarrow> serial_stop_order a s"
  by (auto simp: stop_traces_Agent_stopper serial_stop_order_def)

lemma stop_traces_nonempty: "stop_traces (Agent_stopper a) \<noteq> []"
proof -
  have "par_traces (map (\<lambda>i. [call Stop i]) (inputs a)) \<noteq> []"
    by (rule par_traces_nonempty) simp
  then show ?thesis by (simp add: stop_traces_Agent_stopper)
qed

lemma Agent_Stop_cases:
  assumes "r \<in> set (Agent_Stop cfg a)"
  obtains (timely) s where "s \<in> set (stop_traces (Agent_stopper a))"
      and "r = (a, spawned_steps s @ [(Caller, RecvC)])"
    | (timedout) s t where "s \<in> set (stop_traces (Agent_stopper a))"
      and "t \<in> set (interleave (forced_steps cfg a) (spawned_steps s))"
      and "r = (a, t @ [(Caller, RecvC)])"
  using assms by (auto simp: Agent_Stop_def Let_def)

lemma Agent_Stop_timely:
  "s \<in> set (stop_traces (Agent_stopper a)) \<Longrightarrow>
   (a, spawned_steps s @ [(Caller, RecvC)]) \<in> set (Agent_Stop cfg a)"
  by (auto simp: Agent_Stop_def Let_def)

lemma Agent_Stop_timedout:
  "s \<in> set (stop_traces (Agent_stopper a)) \<Longrightarrow>
   t \<in> set (interleave (forced_steps cfg a) (spawned_steps s)) \<Longrightarrow>
   (a, t @ [(Caller, RecvC)]) \<in> set (Agent_Stop cfg a)"
  by (auto simp: Agent_Stop_def Let_def)

lemma thread_steps_append:
  "thread_steps th (xs @ ys) = thread_steps th xs @ thread_steps th ys"
  by (simp add: thread_steps_def)

lemma thread_steps_spawned:
  "thread_steps Goroutine (spawned_steps s) = spawned_steps s \<and>
   thread_steps Caller (spawned_steps s) = []"
  by (simp add: thread_steps_def spawned_steps_def)

lemma thread_Goroutine_iff: "(th = Goroutine) = (th \<noteq> Caller)"
  by (cases th) simp_all

lemma thread_steps_interleaved:
  assumes "t \<in> set (interleave (forced_steps cfg a) (spawned_steps s))"
  shows "thread_steps Caller t = forced_steps cfg a \<and>
         thread_steps Goroutine t = spawned_steps s"
proof -
  have f: "\<forall>x \<in> set (forced_steps cfg a). fst x = Caller"
    by (simp add: forced_steps_def call_def)
  have g: "\<forall>x \<in> set (spawned_steps s). \<not> fst x = Caller"
    by (auto simp: spawned_steps_def)
  from interleave_filter [OF assms f g] show ?thesis
    by (simp add: thread_steps_def thread_Goroutine_iff)
qed

lemma life_events_append: "life_events (xs @ ys) = life_events xs @ life_events ys"
  by (simp add: life_events_def)

lemma life_events_spawned: "life_events (spawned_steps s) = s"
  by (induction s) (simp_all add: life_events_def spawned_steps_def)

lemma life_events_forced:
  "life_events (forced_steps cfg a) = call Stop (RDestinationsContext (destinationsCtx a))"
  by (simp add: life_events_def forced_steps_def call_def)

lemma timely0_mem: "(agent0, timely0) \<in> set (Agent_Stop cfg0 agent0)"
proof -
  have s: "spawned_steps
      (call Stop (RInput (JournaldLauncher ''src'' prov0 aud0)) @ call Stop (RProvider prov0) @
       call Stop (RAuditor aud0) @ call Stop (RDestinationsContext DestinationsContext))
      @ [(Caller, RecvC)] = timely0"
    by (simp add: spawned_steps_def call_def timely0_def)
  have "call Stop (RInput (JournaldLauncher ''src'' prov0 aud0)) @ call Stop (RProvider prov0) @
       call Stop (RAuditor aud0) @ call Stop (RDestinationsContext DestinationsContext)
       \<in> set (stop_traces (Agent_stopper agent0))"
    by (simp add: stop_traces_Agent_stopper agent0_def NewDestinationsContext_def
        interleave_Nil2)
  from Agent_Stop_timely [OF this, of cfg0] s show ?thesis by simp
qed

lemma timedout0_mem: "(agent0, timedout0) \<in> set (Agent_Stop cfg0 agent0)"
proof -
  let ?s = "call Stop (RInput (JournaldLauncher ''src'' prov0 aud0)) @
       call Stop (RProvider prov0) @ call Stop (RAuditor aud0) @
       call Stop (RDestinationsContext DestinationsContext)"
  have m: "?s \<in> set (stop_traces (Agent_stopper agent0))"
    by (simp add: stop_traces_Agent_stopper agent0_def NewDestinationsContext_def
        interleave_Nil2)
  have f: "forced_steps cfg0 agent0 =
     [(Caller, TimerFired 30000000000),
      (Caller, LogInfo ''Timed out when stopping logs-agent, forcing it to stop now''),
      (Caller, Life (Invoke Stop (RDestinationsContext DestinationsContext))),
      (Caller, Life (Return Stop (RDestinationsContext DestinationsContext)))]"
    by (simp add: forced_steps_def stop_timeout_def GetInt_def cfg0_def Second_def call_def
        agent0_def NewDestinationsContext_def)
  have i: "butlast timedout0 \<in> set (interleave (forced_steps cfg0 agent0) (spawned_steps ?s))"
    unfolding f
    by (simp add: timedout0_def spawned_steps_def call_def del: interleave.simps)
      (intro interleave_left interleave_right, simp)
  have "butlast timedout0 @ [(Caller, RecvC)] = timedout0"
    by (simp add: timedout0_def)
  with Agent_Stop_timedout [OF m i] show ?thesis by simp
qed

section \<open>Agent.Stop and the grace period\<close>

lemma stop_timeout_seconds:
  assumes "- 9223372036 \<le> GetInt cfg ''logs_config.stop_grace_period''"
    and "GetInt cfg ''logs_config.stop_grace_period'' \<le> 9223372036"
  shows "sint (stop_timeout cfg) = GetInt cfg ''logs_config.stop_grace_period'' * 1000000000"
proof -
  let ?g = "GetInt cfg ''logs_config.stop_grace_period''"
  have m: "stop_timeout cfg = (word_of_int (?g * 1000000000) :: 64 word)"
    by (simp add: stop_timeout_def Second_def)
  have lo: "- (2 ^ 63) \<le> ?g * 1000000000" using assms(1) by simp
  have hi: "?g * 1000000000 < 2 ^ 63" using assms(2) by simp
  have k: "signed_take_bit (63::nat) (?g * 1000000000) = ?g * 1000000000"
    by (rule signed_take_bit_int_eq_self [OF lo hi])
  have "sint (word_of_int x :: 64 word) = signed_take_bit (63::nat) x" for x :: int
    by (simp add: sint_sbintrunc')
  from this [of "?g * 1000000000"] k
  have "sint (word_of_int (?g * 1000000000) :: 64 word) = ?g * 1000000000"
    by (simp only:)
  with m show ?thesis by (simp only:)
qed







lemma Agent_Stop_at_cases:
  assumes "r \<in> set (Agent_Stop_at cfg a d)"
  obtains (timely) s where "d \<le> timer_ready cfg"
      and "s \<in> set (stop_traces (Agent_stopper a))"
      and "r = (a, spawned_steps s @ [(Caller, RecvC)])"
    | (timedout) s t where "timer_ready cfg \<le> d"
      and "s \<in> set (stop_traces (Agent_stopper a))"
      and "t \<in> set (interleave (forced_steps cfg a) (spawned_steps s))"
      and "timer_ready cfg = d \<or>
           precedes (Caller, TimerFired (stop_timeout cfg)) (Goroutine, CloseC) t"
      and "r = (a, t @ [(Caller, RecvC)])"
  using assms by (auto simp: Agent_Stop_at_def Let_def split: if_splits)

lemma Agent_Stop_at_timely:
  "d \<le> timer_ready cfg \<Longrightarrow> s \<in> set (stop_traces (Agent_stopper a)) \<Longrightarrow>
   (a, spawned_steps s @ [(Caller, RecvC)]) \<in> set (Agent_Stop_at cfg a d)"
  by (auto simp: Agent_Stop_at_def Let_def)

lemma Agent_Stop_at_timedout:
  "timer_ready cfg \<le> d \<Longrightarrow> s \<in> set (stop_traces (Agent_stopper a)) \<Longrightarrow>
   t \<in> set (interleave (forced_steps cfg a) (spawned_steps s)) \<Longrightarrow>
   timer_ready cfg = d \<or> precedes (Caller, TimerFired (stop_timeout cfg)) (Goroutine, CloseC) t \<Longrightarrow>
   (a, t @ [(Caller, RecvC)]) \<in> set (Agent_Stop_at cfg a d)"
  by (auto simp: Agent_Stop_at_def Let_def)

lemma Agent_Stop_at_subset:
  "r \<in> set (Agent_Stop_at cfg a d) \<Longrightarrow> r \<in> set (Agent_Stop cfg a)"
  by (erule Agent_Stop_at_cases) (simp_all add: Agent_Stop_timely Agent_Stop_timedout)

lemma Agent_Stop_at_timer: "Agent_Stop_at cfg a (timer_ready cfg) = Agent_Stop cfg a"
  by (simp add: Agent_Stop_at_def Agent_Stop_def Let_def)


lemma stop_traces_member: "\<exists>s. s \<in> set (stop_traces (Agent_stopper a))"
  using stop_traces_nonempty [of a] by (cases "stop_traces (Agent_stopper a)") auto

lemma Agent_Stop_at_nonempty: "Agent_Stop_at cfg a d \<noteq> []"
proof -
  obtain s where s: "s \<in> set (stop_traces (Agent_stopper a))"
    using stop_traces_member by blast
  show ?thesis
  proof (cases "d \<le> timer_ready cfg")
    case True
    from Agent_Stop_at_timely [OF True s] show ?thesis by auto
  next
    case False
    then have le: "timer_ready cfg \<le> d" by simp
    have i: "forced_steps cfg a @ spawned_steps s
        \<in> set (interleave (forced_steps cfg a) (spawned_steps s))"
      by (rule interleave_append_mem)
    have p: "precedes (Caller, TimerFired (stop_timeout cfg)) (Goroutine, CloseC)
        (forced_steps cfg a @ spawned_steps s)"
      by (simp add: precedes_def forced_steps_def call_def spawned_steps_def dropWhile_append)
    from Agent_Stop_at_timedout [OF le s i] p show ?thesis by auto
  qed
qed

text \<open>At time 0, when \<open>c\<close> is closed already, the timely course is open whatever the
  configured period is.\<close>

lemma Agent_Stop_at_zero_timely:
  "\<exists>r \<in> set (Agent_Stop_at cfg a 0). filter (\<lambda>x. fst x = Caller) (snd r) = [(Caller, RecvC)]"
proof -
  obtain s where s: "s \<in> set (stop_traces (Agent_stopper a))"
    using stop_traces_member by blast
  have m: "(a, spawned_steps s @ [(Caller, RecvC)]) \<in> set (Agent_Stop_at cfg a 0)"
    by (rule Agent_Stop_at_timely [OF _ s]) simp
  have "filter (\<lambda>x. fst x = Caller) (spawned_steps s @ [(Caller, RecvC)]) = [(Caller, RecvC)]"
    by (simp add: spawned_steps_def)
  with m show ?thesis by force
qed





text \<open>
  C2, as stated, fails: in the timed-out case the caller itself calls
  DestinationsContext.Stop() while the stop sequence is still at its first group. In the
  behaviour \<open>timedout0\<close> of Agent.Stop the context is stopped after the input's Stop was
  invoked and before it returned, ahead of the provider and of the auditor, so the Stop
  calls of the behaviour are not in the serial order.
\<close>

theorem Agent_Stop_forced_out_of_order:
  "(agent0, timedout0) \<in> set (Agent_Stop cfg0 agent0) \<and>
   \<not> serial_stop_order agent0 (life_events timedout0)"
proof -
  have "\<not> serial_stop_order agent0 (life_events timedout0)"
    by (simp add: serial_stop_order_def life_events_def timedout0_def agent0_def call_def
        interleave_Nil2)
  with timedout0_mem show ?thesis by blast
qed

text \<open>
  C2, amended. In every behaviour of Agent.Stop the Stop calls made by the stop sequence
  (the goroutine's SerialStopper) are in the serial order: the calls on all the inputs,
  taking turns in some way, each invoked and returned, then the call on the pipeline
  provider, then the one on the Auditor, then the one on the DestinationsContext, each
  returning before the next is invoked. The caller makes either no Stop call, and then
  the Stop calls of the whole behaviour are in the serial order, or the single call of
  DestinationsContext.Stop() of the timed-out case, whose place among the calls of the
  stop sequence is not fixed.
\<close>

theorem Agent_Stop_serial_order:
  assumes "r \<in> set (Agent_Stop cfg a)"
  shows "serial_stop_order a (life_events (thread_steps Goroutine (snd r))) \<and>
         (life_events (thread_steps Caller (snd r)) = [] \<or>
          life_events (thread_steps Caller (snd r)) =
            call Stop (RDestinationsContext (destinationsCtx a))) \<and>
         (life_events (thread_steps Caller (snd r)) = [] \<longrightarrow>
            serial_stop_order a (life_events (snd r)))"
  using assms
proof (cases rule: Agent_Stop_cases)
  case (timely s)
  have g: "thread_steps Goroutine (snd r) = spawned_steps s"
    by (simp add: timely(2) thread_steps_append thread_steps_spawned)
      (simp add: thread_steps_def)
  have c: "thread_steps Caller (snd r) = [(Caller, RecvC)]"
    by (simp add: timely(2) thread_steps_append thread_steps_spawned)
      (simp add: thread_steps_def)
  have w: "life_events (snd r) = s"
    by (simp add: timely(2) life_events_append life_events_spawned) (simp add: life_events_def)
  from timely(1) have o: "serial_stop_order a s"
    by (simp add: stop_traces_serial_order)
  have "life_events (thread_steps Caller (snd r)) = []"
    by (simp add: c life_events_def)
  with o show ?thesis by (simp add: g w life_events_spawned)
next
  case (timedout s t)
  note ts = thread_steps_interleaved [OF timedout(2)]
  have g: "thread_steps Goroutine (snd r) = spawned_steps s"
    by (simp add: timedout(3) thread_steps_append ts) (simp add: thread_steps_def)
  have c: "thread_steps Caller (snd r) = forced_steps cfg a @ [(Caller, RecvC)]"
    by (simp add: timedout(3) thread_steps_append ts) (simp add: thread_steps_def)
  from timedout(1) have o: "serial_stop_order a s"
    by (simp add: stop_traces_serial_order)
  have l: "life_events (thread_steps Caller (snd r)) =
      call Stop (RDestinationsContext (destinationsCtx a))"
    by (simp add: c life_events_append life_events_forced) (simp add: life_events_def)
  have "call Stop (RDestinationsContext (destinationsCtx a)) \<noteq> []"
    by (simp add: call_def)
  then have "life_events (thread_steps Caller (snd r)) \<noteq> []"
    by (simp only: l)
  with o l show ?thesis by (simp only: g life_events_spawned) blast
qed

theorem Agent_Stop_serial_order_witness:
  "(agent0, timedout0) \<in> set (Agent_Stop cfg0 agent0) \<and>
   serial_stop_order agent0 (life_events (thread_steps Goroutine timedout0)) \<and>
   life_events (thread_steps Goroutine timedout0) =
     [Invoke Stop (RInput (JournaldLauncher ''src'' prov0 aud0)),
      Return Stop (RInput (JournaldLauncher ''src'' prov0 aud0)),
      Invoke Stop (RProvider prov0), Return Stop (RProvider prov0),
      Invoke Stop (RAuditor aud0), Return Stop (RAuditor aud0),
      Invoke Stop (RDestinationsContext DestinationsContext),
      Return Stop (RDestinationsContext DestinationsContext)] \<and>
   life_events (thread_steps Caller timedout0) =
     [Invoke Stop (RDestinationsContext DestinationsContext),
      Return Stop (RDestinationsContext DestinationsContext)] \<and>
   (agent0, timely0) \<in> set (Agent_Stop cfg0 agent0) \<and>
   life_events (thread_steps Caller timely0) = [] \<and>
   serial_stop_order agent0 (life_events timely0)"
proof -
  have g: "life_events (thread_steps Goroutine timedout0) =
     [Invoke Stop (RInput (JournaldLauncher ''src'' prov0 aud0)),
      Return Stop (RInput (JournaldLauncher ''src'' prov0 aud0)),
      Invoke Stop (RProvider prov0), Return Stop (RProvider prov0),
      Invoke Stop (RAuditor aud0), Return Stop (RAuditor aud0),
      Invoke Stop (RDestinationsContext DestinationsContext),
      Return Stop (RDestinationsContext DestinationsContext)]"
    by (simp add: life_events_def thread_steps_def timedout0_def)
  have c: "life_events (thread_steps Caller timedout0) =
     [Invoke Stop (RDestinationsContext DestinationsContext),
      Return Stop (RDestinationsContext DestinationsContext)]"
    by (simp add: life_events_def thread_steps_def timedout0_def)
  have e: "life_events (thread_steps Caller timely0) = []"
    by (simp add: life_events_def thread_steps_def timely0_def)
  from Agent_Stop_serial_order [OF timedout0_mem]
  have 1: "serial_stop_order agent0 (life_events (thread_steps Goroutine timedout0))"
    by simp
  from Agent_Stop_serial_order [OF timely0_mem] e
  have 2: "serial_stop_order agent0 (life_events timely0)"
    by simp
  from 1 2 g c e timedout0_mem timely0_mem show ?thesis by simp
qed

text \<open>
  C9. Agent.Start and every behaviour of Agent.Stop leave the Agent as it was: the fields
  auditor, destinationsCtx, pipelineProvider, inputs and health are unchanged. The Starter
  and the stoppers are built anew from these fields by each call, so a call after another
  behaves as the first did.
\<close>

theorem Agent_frame:
  "fst (Agent_Start a) = a \<and>
   auditor (fst (Agent_Start a)) = auditor a \<and>
   destinationsCtx (fst (Agent_Start a)) = destinationsCtx a \<and>
   pipelineProvider (fst (Agent_Start a)) = pipelineProvider a \<and>
   inputs (fst (Agent_Start a)) = inputs a \<and>
   health (fst (Agent_Start a)) = health a \<and>
   Agent_Start (fst (Agent_Start a)) = Agent_Start a \<and>
   Agent_Stop cfg (fst (Agent_Start a)) = Agent_Stop cfg a \<and>
   Agent_Stop cfg a \<noteq> [] \<and>
   (\<forall>r \<in> set (Agent_Stop cfg a).
      fst r = a \<and> auditor (fst r) = auditor a \<and> destinationsCtx (fst r) = destinationsCtx a \<and>
      pipelineProvider (fst r) = pipelineProvider a \<and> inputs (fst r) = inputs a \<and>
      health (fst r) = health a \<and>
      Agent_Stop cfg (fst r) = Agent_Stop cfg a \<and> Agent_Start (fst r) = Agent_Start a)"
proof -
  have s: "fst (Agent_Start a) = a"
    by (simp add: Agent_Start_def Let_def)
  have f: "fst r = a" if "r \<in> set (Agent_Stop cfg a)" for r
    using that by (cases rule: Agent_Stop_cases) simp_all
  obtain t where "t \<in> set (stop_traces (Agent_stopper a))"
    using stop_traces_nonempty [of a] by (cases "stop_traces (Agent_stopper a)") auto
  from Agent_Stop_timely [OF this, of cfg] have n: "Agent_Stop cfg a \<noteq> []"
    by auto
  from s f n show ?thesis by simp
qed

theorem Agent_frame_witness:
  "fst (Agent_Start agent0) = agent0 \<and>
   (agent0, timedout0) \<in> set (Agent_Stop cfg0 agent0) \<and>
   auditor (fst (agent0, timedout0)) = aud0 \<and>
   pipelineProvider (fst (agent0, timedout0)) = prov0 \<and>
   inputs (fst (agent0, timedout0)) = [RInput (JournaldLauncher ''src'' prov0 aud0)] \<and>
   Agent_Start (fst (agent0, timedout0)) = Agent_Start agent0"
proof -
  from Agent_frame [of agent0 cfg0] timedout0_mem
  have "fst (Agent_Start agent0) = agent0 \<and>
        auditor (fst (agent0, timedout0)) = auditor agent0 \<and>
        pipelineProvider (fst (agent0, timedout0)) = pipelineProvider agent0 \<and>
        inputs (fst (agent0, timedout0)) = inputs agent0 \<and>
        Agent_Start (fst (agent0, timedout0)) = Agent_Start agent0"
    by blast
  with timedout0_mem show ?thesis by (simp add: agent0_def)
qed


end
